theory Spec2Isabelle
  imports Main "HOL-Library.Word"
begin

section \<open>The legacy (Frontier) transaction signer of crypto/txsigner\_frontier.go\<close>

text \<open>
  The development embeds the four methods of \<^verbatim>\<open>FrontierSigner\<close>
  (\<^verbatim>\<open>Hash\<close>, \<^verbatim>\<open>Sender\<close>, \<^verbatim>\<open>SignTx\<close>, \<^verbatim>\<open>CalculateV\<close>) together
  with the parts of Go's \<^verbatim>\<open>math/big\<close> they rely on. The elliptic-curve primitive, the
  digest and the canonical encoder are black boxes of the package: they are a record of
  functions handed to every operation.
\<close>

subsection \<open>Bytes and arbitrary-precision integers\<close>

type_synonym byte = "8 word"

text \<open>
  \<^verbatim>\<open>big.Int.Bytes\<close> is the big-endian encoding of the absolute value with no leading zero
  byte (the empty slice for zero); \<^verbatim>\<open>big.Int.SetBytes\<close> reads a big-endian unsigned
  integer. A \<^verbatim>\<open>*big.Int\<close> is an \<open>int option\<close>, \<open>None\<close> being \<^verbatim>\<open>nil\<close>.
\<close>

fun bytes_of_nat :: "nat \<Rightarrow> byte list" where
  "bytes_of_nat n = (if n = 0 then [] else bytes_of_nat (n div 256) @ [of_nat (n mod 256)])"

declare bytes_of_nat.simps [simp del]

definition nat_of_bytes :: "byte list \<Rightarrow> nat" where
  "nat_of_bytes bs = foldl (\<lambda>a b. a * 256 + unat b) 0 bs"

definition Bytes :: "int \<Rightarrow> byte list" where
  "Bytes x = bytes_of_nat (nat \<bar>x\<bar>)"

definition SetBytes :: "byte list \<Rightarrow> int" where
  "SetBytes bs = int (nat_of_bytes bs)"

text \<open>
  \<^verbatim>\<open>big.Int.Int64\<close> takes the low 64 bits of the magnitude and negates them when the
  number is negative; the conversion \<^verbatim>\<open>byte(...)\<close> keeps the low 8 bits.
\<close>

definition Int64 :: "int \<Rightarrow> 64 word" where
  "Int64 x = (let v = (of_nat (nat \<bar>x\<bar>) :: 64 word) in if x < 0 then - v else v)"

definition byte_of_int64 :: "64 word \<Rightarrow> byte" where
  "byte_of_int64 w = ucast w"

subsection \<open>Transactions, errors and the external primitives\<close>

text \<open>
  Modelled from the spec: the declaration of \<^verbatim>\<open>types.Transaction\<close> is not among the
  sources. The fields are those of the spec's data model: nonce, gas price, gas limit,
  optional recipient, value, payload, and the signature triple V, R, S, each a
  \<^verbatim>\<open>*big.Int\<close> that is absent until the transaction is signed.
\<close>

record transaction =
  Nonce :: nat
  GasPrice :: "int option"
  Gas :: nat
  To :: "byte list option"
  Value :: "int option"
  Input :: "byte list"
  V :: "int option"
  R :: "int option"
  S :: "int option"

text \<open>
  The error kinds of the spec, and \<open>RuntimePanic\<close> for Go's run-time panics (a nil
  pointer, a slice expression out of range).
\<close>

datatype error = InvalidSignature | SigningFailure | RecoveryFailure | EncodingFailure
  | RuntimePanic

text \<open>The values the canonical encoder serialises.\<close>

datatype field = FUint nat | FBigInt "int option" | FBytes "byte list" | FNull

text \<open>
  The black-box primitives: the digest \<^verbatim>\<open>Keccak256\<close>, the canonical encoder, the
  elliptic-curve \<^verbatim>\<open>Sign\<close> and \<^verbatim>\<open>Ecrecover\<close> (\<open>None\<close> when the primitive returns an
  error), and the uncompressed encoding of the public key of a private key.
\<close>

record 'k primitives =
  Keccak256 :: "byte list \<Rightarrow> byte list"
  Encode :: "field list \<Rightarrow> byte list"
  Sign :: "'k \<Rightarrow> byte list \<Rightarrow> byte list option"
  Ecrecover :: "byte list \<Rightarrow> byte list \<Rightarrow> byte list option"
  PublicKey :: "'k \<Rightarrow> byte list"

subsection \<open>Helpers of the package that the signer calls\<close>

text \<open>
  Modelled from the spec: \<^verbatim>\<open>calcTxHash\<close> is not among the sources. The spec's
  Transaction Hasher builds the field list nonce, gas price, gas limit,
  recipient-or-empty, value, payload and, only for a replay-protected scheme (a chain
  identifier other than 0), the chain identifier plus two zero placeholders; it
  serialises the list with the canonical encoder and reduces it with the digest.
\<close>

definition calcTxHash :: "'k primitives \<Rightarrow> transaction \<Rightarrow> nat \<Rightarrow> byte list" where
  "calcTxHash P tx chainID =
     Keccak256 P (Encode P
       ([FUint (Nonce tx), FBigInt (GasPrice tx), FUint (Gas tx),
         (case To tx of None \<Rightarrow> FNull | Some a \<Rightarrow> FBytes a),
         FBigInt (Value tx), FBytes (Input tx)]
        @ (if chainID \<noteq> 0 then [FUint chainID, FUint 0, FUint 0] else [])))"

text \<open>
  Modelled from the spec: \<^verbatim>\<open>encodeSignature\<close> is not among the sources. The spec
  reassembles a 65-byte signature from R, S and the parity, left-padding R and S to 32
  bytes each; it fails with \<open>InvalidSignature\<close> if R or S is absent, zero-length or
  longer than 32 bytes, and (V-decoder) unless the parity is 0 or 1. The parity arrives
  as a \<^verbatim>\<open>byte\<close>, as the call in \<^verbatim>\<open>Sender\<close> passes it.
\<close>

definition leftpad32 :: "byte list \<Rightarrow> byte list" where
  "leftpad32 bs = replicate (32 - length bs) 0 @ bs"

definition encodeSignature :: "int option \<Rightarrow> int option \<Rightarrow> byte \<Rightarrow> error + byte list" where
  "encodeSignature r s v =
     (case r of None \<Rightarrow> Inl InvalidSignature
      | Some rr \<Rightarrow>
     (case s of None \<Rightarrow> Inl InvalidSignature
      | Some ss \<Rightarrow>
        if 1 < v then Inl InvalidSignature
        else if Bytes rr = [] \<or> 32 < length (Bytes rr) then Inl InvalidSignature
        else if Bytes ss = [] \<or> 32 < length (Bytes ss) then Inl InvalidSignature
        else Inr (leftpad32 (Bytes rr) @ leftpad32 (Bytes ss) @ [v])))"

text \<open>
  Modelled from the spec: \<^verbatim>\<open>types.BytesToAddress\<close> is not among the sources. An
  address is a 20-byte value; the low (last) 20 bytes of the argument are kept,
  right-aligned, a shorter argument being padded with zero bytes on the left.
\<close>

definition BytesToAddress :: "byte list \<Rightarrow> byte list" where
  "BytesToAddress b = replicate (20 - length b) 0 @ drop (length b - 20) b"

text \<open>
  Modelled from the spec: the address of a public key (the spec's \<open>AddressOf\<close>) is the
  low 20 bytes of the digest of the uncompressed key without its prefix byte.
\<close>

definition AddressOf :: "'k primitives \<Rightarrow> byte list \<Rightarrow> byte list" where
  "AddressOf P pub = BytesToAddress (drop 12 (Keccak256 P (drop 1 pub)))"

subsection \<open>The methods of \<^verbatim>\<open>FrontierSigner\<close>\<close>

text \<open>\<^verbatim>\<open>Hash\<close>: \<^verbatim>\<open>return calcTxHash(tx, 0)\<close>.\<close>

definition Hash :: "'k primitives \<Rightarrow> transaction \<Rightarrow> byte list" where
  "Hash P tx = calcTxHash P tx 0"

text \<open>\<^verbatim>\<open>CalculateV\<close>: \<^verbatim>\<open>big.NewInt(int64(parity))\<close>, plus 27, as bytes.\<close>

definition big27 :: int where
  "big27 = 27"

definition CalculateV :: "byte \<Rightarrow> byte list" where
  "CalculateV parity = (let reference = uint parity; reference = reference + big27
                         in Bytes reference)"

text \<open>
  The first lines of \<^verbatim>\<open>Sender\<close>: \<open>refV\<close> starts at 0, takes the magnitude of
  \<^verbatim>\<open>tx.V\<close> when that is not nil, loses 27, and is narrowed by
  \<^verbatim>\<open>byte(refV.Int64())\<close> to the byte handed to \<^verbatim>\<open>encodeSignature\<close>.
\<close>

definition Sender_parity :: "transaction \<Rightarrow> byte" where
  "Sender_parity tx =
     (let refV = (case V tx of None \<Rightarrow> 0 | Some v \<Rightarrow> SetBytes (Bytes v));
          refV = refV - big27
      in byte_of_int64 (Int64 refV))"

text \<open>
  \<^verbatim>\<open>Sender\<close>. An error of \<^verbatim>\<open>encodeSignature\<close> is returned as it is; an error of
  \<^verbatim>\<open>Ecrecover\<close> is the spec's \<open>RecoveryFailure\<close>. The slice expressions
  \<^verbatim>\<open>pub[1:]\<close> and \<^verbatim>\<open>Keccak256(...)[12:]\<close> panic when the slice is too short.
\<close>

definition Sender :: "'k primitives \<Rightarrow> transaction \<Rightarrow> error + byte list" where
  "Sender P tx =
     (case encodeSignature (R tx) (S tx) (Sender_parity tx) of
        Inl err \<Rightarrow> Inl err
      | Inr sig \<Rightarrow>
          (case Ecrecover P (Hash P tx) sig of
             None \<Rightarrow> Inl RecoveryFailure
           | Some pub \<Rightarrow>
               if length pub < 1 then Inl RuntimePanic
               else if length (Keccak256 P (drop 1 pub)) < 12 then Inl RuntimePanic
               else Inr (BytesToAddress (drop 12 (Keccak256 P (drop 1 pub))))))"

text \<open>
  \<^verbatim>\<open>SignTx\<close> works on pointers, so it runs on a store of transaction objects: a list,
  a pointer being an index into it. Modelled from the spec: \<^verbatim>\<open>Transaction.Copy\<close> is
  not among the sources; it allocates a new object holding a copy of the transaction it
  is called on (and a nil receiver panics).
\<close>

type_synonym store = "transaction list"

definition Copy :: "store \<Rightarrow> nat \<Rightarrow> (store \<times> nat) option" where
  "Copy h p = (if p < length h then Some (h @ [h ! p], length h) else None)"

definition SignTx ::
  "'k primitives \<Rightarrow> store \<Rightarrow> nat \<Rightarrow> 'k \<Rightarrow> store \<times> (error + nat)" where
  "SignTx P h p privateKey =
     (case Copy h p of
        None \<Rightarrow> (h, Inl RuntimePanic)
      | Some (h1, tx) \<Rightarrow>
          (case Sign P privateKey (Hash P (h1 ! tx)) of
             None \<Rightarrow> (h1, Inl SigningFailure)
           | Some sig \<Rightarrow>
               if length sig < 65 then (h1, Inl RuntimePanic)
               else
                 let h2 = h1[tx := (h1 ! tx)\<lparr>R := Some (SetBytes (take 32 sig))\<rparr>];
                     h3 = h2[tx := (h2 ! tx)\<lparr>S := Some (SetBytes (take 32 (drop 32 sig)))\<rparr>];
                     h4 = h3[tx := (h3 ! tx)\<lparr>V := Some (SetBytes (CalculateV (sig ! 64)))\<rparr>]
                 in (h4, Inr tx)))"

subsection \<open>The contract of the elliptic-curve primitive\<close>

text \<open>
  Modelled from the spec: the external interfaces promise that \<^verbatim>\<open>Sign\<close>, for a valid
  private key and a digest, returns a 65-byte signature R, S, parity with R and S
  non-zero scalars and the parity 0 or 1, that \<^verbatim>\<open>Ecrecover\<close> of that digest and
  signature returns the uncompressed public key of the private key (65 bytes), and that
  the digest of a byte string has 32 bytes. \<open>valid_key P k d\<close> says that the
  primitives \<open>P\<close> keep this contract for the key \<open>k\<close> on the digest \<open>d\<close>.
\<close>

definition valid_key :: "'k primitives \<Rightarrow> 'k \<Rightarrow> byte list \<Rightarrow> bool" where
  "valid_key P k d =
     (case Sign P k d of
        None \<Rightarrow> False
      | Some sig \<Rightarrow>
          length sig = 65 \<and> (sig ! 64 = 0 \<or> sig ! 64 = 1)
          \<and> SetBytes (take 32 sig) \<noteq> 0 \<and> SetBytes (take 32 (drop 32 sig)) \<noteq> 0
          \<and> Ecrecover P d sig = Some (PublicKey P k)
          \<and> length (PublicKey P k) = 65
          \<and> length (Keccak256 P (drop 1 (PublicKey P k))) = 32)"

subsection \<open>A small instance for running the operations\<close>

text \<open>
  An instance of the primitives on which the operations can be evaluated. It is not
  cryptography: a private key is a number, its public key is the prefix byte 4 followed
  by the key and the scalar 1, each on 32 bytes, the signature of any digest is the
  public key's 64 bytes with parity 0, recovery reads the key back from the signature,
  the digest pads or cuts its input to 32 bytes and the encoder writes the number of
  fields.
\<close>

definition toy_primitives :: "nat primitives" where
  "toy_primitives =
     \<lparr> Keccak256 = (\<lambda>bs. take 32 (bs @ replicate 32 0)),
       Encode = (\<lambda>fs. [of_nat (length fs)]),
       Sign = (\<lambda>k d. if k = 0 then None
                      else Some (leftpad32 (bytes_of_nat k) @ leftpad32 [1] @ [0])),
       Ecrecover = (\<lambda>d sig. if length sig = 65 then Some (4 # take 64 sig) else None),
       PublicKey = (\<lambda>k. 4 # leftpad32 (bytes_of_nat k) @ leftpad32 [1]) \<rparr>"

text \<open>
  The unsigned transaction of the spec's concrete scenario (nonce 0, gas price 1, gas
  21000, a 20-byte recipient, value 0, empty payload), and the same transaction carrying
  R = S = 1 with V = 27 and with V = 283 = 27 + 256.
\<close>

definition tx_unsigned :: transaction where
  "tx_unsigned =
     \<lparr> Nonce = 0, GasPrice = Some 1, Gas = 21000, To = Some (replicate 20 17),
       Value = Some 0, Input = [], V = None, R = None, S = None \<rparr>"

definition tx_v27 :: transaction where
  "tx_v27 = tx_unsigned\<lparr>V := Some 27, R := Some 1, S := Some 1\<rparr>"

definition tx_v283 :: transaction where
  "tx_v283 = tx_unsigned\<lparr>V := Some 283, R := Some 1, S := Some 1\<rparr>"

section \<open>Properties\<close>

subsection \<open>Big-endian bytes and narrowing\<close>

lemma nat_of_bytes_Nil: "nat_of_bytes [] = 0"
  by (simp add: nat_of_bytes_def)

lemma nat_of_bytes_snoc: "nat_of_bytes (bs @ [b]) = nat_of_bytes bs * 256 + unat b"
  by (simp add: nat_of_bytes_def)

lemma unat_byte_of_mod: "unat (of_nat (n mod 256) :: byte) = n mod 256"
  by (simp add: unat_of_nat)

lemma nat_of_bytes_of_nat: "nat_of_bytes (bytes_of_nat n) = n"
proof (induction n rule: bytes_of_nat.induct)
  case (1 n)
  show ?case
  proof (cases "n = 0")
    case True
    then show ?thesis by (simp add: bytes_of_nat.simps nat_of_bytes_Nil)
  next
    case False
    with 1 have "nat_of_bytes (bytes_of_nat (n div 256)) = n div 256" by simp
    with False show ?thesis
      by (subst bytes_of_nat.simps) (simp add: nat_of_bytes_snoc unat_byte_of_mod)
  qed
qed

lemma nat_of_bytes_zero_iff: "nat_of_bytes bs = 0 \<longleftrightarrow> list_all (\<lambda>b. b = 0) bs"
proof (induction bs rule: rev_induct)
  case Nil
  show ?case by (simp add: nat_of_bytes_Nil)
next
  case (snoc b bs)
  then show ?case by (simp add: nat_of_bytes_snoc unat_eq_0)
qed

lemma bytes_of_nat_of_bytes: "bytes_of_nat (nat_of_bytes bs) = dropWhile (\<lambda>b. b = 0) bs"
proof (induction bs rule: rev_induct)
  case Nil
  show ?case by (simp add: nat_of_bytes_Nil bytes_of_nat.simps)
next
  case (snoc b bs)
  show ?case
  proof (cases "nat_of_bytes (bs @ [b]) = 0")
    case True
    then have "list_all (\<lambda>b. b = 0) (bs @ [b])" by (simp only: nat_of_bytes_zero_iff)
    then have "dropWhile (\<lambda>b. b = 0) (bs @ [b]) = []" by (simp add: list_all_iff)
    with True show ?thesis by (simp add: bytes_of_nat.simps)
  next
    case False
    have ub: "unat b < 256" using unsigned_less [of b, where ?'a = nat] by simp
    have d: "(nat_of_bytes bs * 256 + unat b) div 256 = nat_of_bytes bs" using ub by simp
    have m: "(nat_of_bytes bs * 256 + unat b) mod 256 = unat b" using ub by simp
    have step: "bytes_of_nat (nat_of_bytes (bs @ [b])) = bytes_of_nat (nat_of_bytes bs) @ [b]"
    proof -
      define n where "n = nat_of_bytes bs * 256 + unat b"
      have n0: "n \<noteq> 0" using False by (simp add: n_def nat_of_bytes_snoc)
      have nd: "n div 256 = nat_of_bytes bs" using d by (simp add: n_def)
      have nm: "(of_nat (n mod 256) :: byte) = b" using m by (simp add: n_def)
      have "bytes_of_nat n = bytes_of_nat (n div 256) @ [of_nat (n mod 256)]"
        using n0 bytes_of_nat.simps [of n] by simp
      then have "bytes_of_nat n = bytes_of_nat (nat_of_bytes bs) @ [b]"
        by (simp only: nd nm)
      then show ?thesis by (simp only: n_def nat_of_bytes_snoc)
    qed
    show ?thesis
    proof (cases "list_all (\<lambda>b. b = 0) bs")
      case True
      then have z: "nat_of_bytes bs = 0" by (simp add: nat_of_bytes_zero_iff)
      from False z have "b \<noteq> 0" by (auto simp: nat_of_bytes_snoc)
      moreover from True have "dropWhile (\<lambda>b. b = 0) bs = []" by (simp add: list_all_iff)
      ultimately show ?thesis using step snoc True
        by (simp add: dropWhile_append list_all_iff)
    next
      case False
      then show ?thesis using step snoc
        by (auto simp: dropWhile_append list_all_iff)
    qed
  qed
qed

lemma leftpad32_dropWhile:
  assumes "length bs = 32"
  shows "leftpad32 (dropWhile (\<lambda>b. b = 0) bs) = bs"
proof -
  have t: "takeWhile (\<lambda>b. b = 0) bs = replicate (length (takeWhile (\<lambda>b. b = 0) bs)) 0"
    by (rule replicate_length_same [symmetric]) (auto dest: set_takeWhileD)
  have l: "length (takeWhile (\<lambda>b. b = 0) bs) + length (dropWhile (\<lambda>b. b = 0) bs) = 32"
    using assms by (metis length_append takeWhile_dropWhile_id)
  then have "32 - length (dropWhile (\<lambda>b. b = 0) bs) = length (takeWhile (\<lambda>b. b = 0) bs)"
    by simp
  then have "leftpad32 (dropWhile (\<lambda>b. b = 0) bs)
      = takeWhile (\<lambda>b. b = 0) bs @ dropWhile (\<lambda>b. b = 0) bs"
    using t by (simp add: leftpad32_def)
  then show ?thesis by simp
qed

lemma Bytes_SetBytes: "Bytes (SetBytes bs) = dropWhile (\<lambda>b. b = 0) bs"
  by (simp add: Bytes_def SetBytes_def bytes_of_nat_of_bytes)

lemma SetBytes_Bytes: "SetBytes (Bytes x) = \<bar>x\<bar>"
  by (simp add: Bytes_def SetBytes_def nat_of_bytes_of_nat)

lemma ucast_64_8: "(ucast (word_of_int y :: 64 word) :: byte) = word_of_int y"
  by (rule bit_word_eqI) (simp add: bit_simps)

lemma Int64_word_of_int: "Int64 x = word_of_int x"
proof (cases "x < 0")
  case True
  then have "int (nat \<bar>x\<bar>) = - x" by simp
  moreover have "(of_nat (nat \<bar>x\<bar>) :: 64 word) = word_of_int (int (nat \<bar>x\<bar>))"
    by (simp only: of_int_of_nat_eq)
  ultimately have "(of_nat (nat \<bar>x\<bar>) :: 64 word) = word_of_int (- x)"
    by (simp only:)
  then show ?thesis using True by (simp add: Int64_def)
next
  case False
  then have "int (nat \<bar>x\<bar>) = x" by simp
  moreover have "(of_nat (nat \<bar>x\<bar>) :: 64 word) = word_of_int (int (nat \<bar>x\<bar>))"
    by (simp only: of_int_of_nat_eq)
  ultimately have "(of_nat (nat \<bar>x\<bar>) :: 64 word) = word_of_int x"
    by (simp only:)
  then show ?thesis using False by (simp add: Int64_def)
qed

lemma byte_of_Int64: "byte_of_int64 (Int64 x) = (word_of_int x :: byte)"
  by (simp only: byte_of_int64_def Int64_word_of_int ucast_64_8)

lemma Sender_parity_27: "Sender_parity (tx\<lparr>V := Some (27 + uint p)\<rparr>) = p"
  by (simp add: Sender_parity_def SetBytes_Bytes big27_def byte_of_Int64)



lemma bytes_of_nat_eq_Nil: "bytes_of_nat n = [] \<longleftrightarrow> n = 0"
proof
  assume "bytes_of_nat n = []"
  then have "nat_of_bytes (bytes_of_nat n) = nat_of_bytes []" by simp
  then show "n = 0" by (simp only: nat_of_bytes_of_nat nat_of_bytes_Nil)
next
  assume "n = 0"
  then show "bytes_of_nat n = []" by (simp add: bytes_of_nat.simps)
qed

lemma Bytes_eq_Nil: "Bytes x = [] \<longleftrightarrow> x = 0"
  by (simp add: Bytes_def bytes_of_nat_eq_Nil)

lemma hd_Bytes_nonzero: "Bytes x \<noteq> [] \<Longrightarrow> hd (Bytes x) \<noteq> 0"
proof -
  assume n: "Bytes x \<noteq> []"
  have "Bytes x = bytes_of_nat (nat_of_bytes (Bytes x))"
    by (simp only: Bytes_def nat_of_bytes_of_nat)
  then have e: "Bytes x = dropWhile (\<lambda>b. b = 0) (Bytes x)"
    by (simp only: bytes_of_nat_of_bytes)
  from n e have "dropWhile (\<lambda>b. b = 0) (Bytes x) \<noteq> []" by simp
  then have "hd (dropWhile (\<lambda>b. b = 0) (Bytes x)) \<noteq> 0" by (rule hd_dropWhile)
  with e show ?thesis by simp
qed

lemma SetBytes_nonneg: "0 \<le> SetBytes bs"
  by (simp add: SetBytes_def)

lemma SetBytes_CalculateV: "SetBytes (CalculateV p) = 27 + uint p"
  by (simp add: CalculateV_def big27_def SetBytes_Bytes)

lemma sig_split:
  assumes "length sig = 65"
  shows "take 32 sig @ take 32 (drop 32 sig) @ [sig ! 64] = sig"
proof -
  have a: "take 32 sig @ take 32 (drop 32 sig) = take 64 sig"
    using take_add [of 32 32 sig] by simp
  have "sig ! 64 # drop (Suc 64) sig = drop 64 sig"
    using assms by (intro Cons_nth_drop_Suc) simp
  then have b: "drop 64 sig = [sig ! 64]" using assms by simp
  have "take 64 sig @ drop 64 sig = sig" by (rule append_take_drop_id)
  then show ?thesis using a b by (metis append_assoc)
qed

lemma leftpad32_Bytes_SetBytes:
  "length bs = 32 \<Longrightarrow> leftpad32 (Bytes (SetBytes bs)) = bs"
  by (simp only: Bytes_SetBytes leftpad32_dropWhile)

lemma length_Bytes_SetBytes: "length (Bytes (SetBytes bs)) \<le> length bs"
  by (simp only: Bytes_SetBytes length_dropWhile_le)

lemma Hash_R_update: "Hash P (tx\<lparr>R := r\<rparr>) = Hash P tx"
  by (simp add: Hash_def calcTxHash_def)

lemma Hash_S_update: "Hash P (tx\<lparr>S := s\<rparr>) = Hash P tx"
  by (simp add: Hash_def calcTxHash_def)

lemma Hash_V_update: "Hash P (tx\<lparr>V := v\<rparr>) = Hash P tx"
  by (simp add: Hash_def calcTxHash_def)

lemma SignTx_success:
  assumes "p < length h" and "Sign P k (Hash P (h ! p)) = Some sig" and "65 \<le> length sig"
  shows "SignTx P h p k =
           (h @ [(h ! p)\<lparr>R := Some (SetBytes (take 32 sig)),
                          S := Some (SetBytes (take 32 (drop 32 sig))),
                          V := Some (SetBytes (CalculateV (sig ! 64)))\<rparr>],
            Inr (length h))"
  using assms by (simp add: SignTx_def Copy_def Let_def)

lemma SignTx_Inr_cases:
  assumes "SignTx P h p k = (h', Inr q)"
  shows "p < length h \<and>
         (\<exists>sig. Sign P k (Hash P (h ! p)) = Some sig \<and> 65 \<le> length sig \<and>
            h' = h @ [(h ! p)\<lparr>R := Some (SetBytes (take 32 sig)),
                                S := Some (SetBytes (take 32 (drop 32 sig))),
                                V := Some (SetBytes (CalculateV (sig ! 64)))\<rparr>] \<and>
            q = length h)"
proof -
  from assms have p: "p < length h"
    by (auto simp: SignTx_def Copy_def split: if_splits)
  from assms p obtain sig where s: "Sign P k (Hash P (h ! p)) = Some sig"
    by (cases "Sign P k (Hash P (h ! p))") (auto simp: SignTx_def Copy_def)
  from assms p s have l: "65 \<le> length sig"
    by (auto simp: SignTx_def Copy_def split: if_splits)
  from assms SignTx_success [OF p s l] show ?thesis using p s l by auto
qed

lemma SignTx_Inl_cases:
  assumes "SignTx P h p k = (h', Inl e)"
  shows "h' = h \<or> (p < length h \<and> h' = h @ [h ! p])"
  using assms
  by (auto simp: SignTx_def Copy_def Let_def split: if_splits option.splits)

lemma encodeSignature_ok:
  assumes "Bytes r \<noteq> []" and "length (Bytes r) \<le> 32"
    and "Bytes s \<noteq> []" and "length (Bytes s) \<le> 32" and "v \<le> 1"
  shows "encodeSignature (Some r) (Some s) v
           = Inr (leftpad32 (Bytes r) @ leftpad32 (Bytes s) @ [v])"
  using assms by (simp add: encodeSignature_def not_less)

lemma length_leftpad32: "length bs \<le> 32 \<Longrightarrow> length (leftpad32 bs) = 32"
  by (simp add: leftpad32_def)

lemma BytesToAddress_20: "length b = 20 \<Longrightarrow> BytesToAddress b = b"
  by (simp add: BytesToAddress_def)

lemma nat_of_bytes_zero_Cons: "nat_of_bytes (0 # bs) = nat_of_bytes bs"
  by (simp add: nat_of_bytes_def)

lemma nat_of_bytes_replicate_zero: "nat_of_bytes (replicate n 0 @ bs) = nat_of_bytes bs"
  by (induction n) (simp_all add: nat_of_bytes_zero_Cons)

lemma SetBytes_leftpad32_bytes: "SetBytes (leftpad32 bs) = SetBytes bs"
  by (simp add: leftpad32_def SetBytes_def nat_of_bytes_replicate_zero)

subsection \<open>The small instance, evaluated\<close>

lemma toy_Keccak256: "Keccak256 toy_primitives bs = take 32 (bs @ replicate 32 0)"
  by (simp add: toy_primitives_def)

lemma toy_Ecrecover:
  "length sig = 65 \<Longrightarrow> Ecrecover toy_primitives d sig = Some (4 # take 64 sig)"
  by (simp add: toy_primitives_def)

lemma toy_Sign_5:
  "Sign toy_primitives 5 d = Some (leftpad32 [5] @ leftpad32 [1] @ [0])"
  by (simp add: toy_primitives_def bytes_of_nat.simps)

lemma toy_PublicKey_5: "PublicKey toy_primitives 5 = 4 # leftpad32 [5] @ leftpad32 [1]"
  by (simp add: toy_primitives_def bytes_of_nat.simps)

lemma length_leftpad32_single: "length (leftpad32 [b]) = 32"
  by (simp add: leftpad32_def)

lemma toy_sig_length: "length (leftpad32 [a] @ leftpad32 [b] @ [c]) = 65"
  by (simp add: length_leftpad32_single)

lemma toy_sig_take_32: "take 32 (leftpad32 [a] @ leftpad32 [b] @ [c]) = leftpad32 [a]"
  by (simp add: length_leftpad32_single)

lemma toy_sig_take_drop_32:
  "take 32 (drop 32 (leftpad32 [a] @ leftpad32 [b] @ [c])) = leftpad32 [b]"
  by (simp add: length_leftpad32_single)

lemma toy_sig_take_64:
  "take 64 (leftpad32 [a] @ leftpad32 [b] @ [c]) = leftpad32 [a] @ leftpad32 [b]"
  by (simp add: length_leftpad32_single)

lemma toy_sig_nth_64: "(leftpad32 [a] @ leftpad32 [b] @ [c]) ! 64 = c"
  by (simp add: nth_append length_leftpad32_single)

lemma SetBytes_single: "SetBytes (leftpad32 [b]) = uint b"
  by (simp add: SetBytes_leftpad32_bytes) (simp add: SetBytes_def nat_of_bytes_def)

lemma toy_address: "AddressOf toy_primitives (4 # leftpad32 [a] @ leftpad32 [b])
    = replicate 19 0 @ [a]"
  by (simp add: AddressOf_def toy_Keccak256 length_leftpad32_single)
     (simp add: leftpad32_def BytesToAddress_def)

lemma toy_valid_key_5: "valid_key toy_primitives 5 d"
  by (simp add: valid_key_def toy_Sign_5 toy_sig_length toy_sig_nth_64 toy_sig_take_32
      toy_sig_take_drop_32 SetBytes_single toy_Ecrecover toy_sig_take_64 toy_PublicKey_5
      toy_Keccak256 length_leftpad32_single)

lemma Bytes_1: "Bytes 1 = [1]"
  by (simp add: Bytes_def bytes_of_nat.simps)

lemma Sender_parity_V_update:
  "Sender_parity (tx\<lparr>V := Some v\<rparr>) = (word_of_int (\<bar>v\<bar> - 27) :: byte)"
  by (simp add: Sender_parity_def SetBytes_Bytes big27_def byte_of_Int64)

lemma Sender_parity_of_V:
  "V tx = Some v \<Longrightarrow> Sender_parity tx = (word_of_int (\<bar>v\<bar> - 27) :: byte)"
  by (simp add: Sender_parity_def SetBytes_Bytes big27_def byte_of_Int64)

lemma Sender_parity_tx_v283: "Sender_parity tx_v283 = 0"
proof -
  have "V tx_v283 = Some 283" by (simp add: tx_v283_def)
  then show ?thesis by (simp add: Sender_parity_of_V)
qed

lemma Sender_parity_tx_v27: "Sender_parity tx_v27 = 0"
proof -
  have "V tx_v27 = Some 27" by (simp add: tx_v27_def)
  then show ?thesis by (simp add: Sender_parity_of_V)
qed

lemma encodeSignature_1_1:
  "encodeSignature (Some 1) (Some 1) 0 = Inr (leftpad32 [1] @ leftpad32 [1] @ [0])"
  using encodeSignature_ok [of 1 1 0] by (simp add: Bytes_1)

lemma encodeSignature_tx_v283:
  "encodeSignature (R tx_v283) (S tx_v283) (Sender_parity tx_v283)
     = Inr (leftpad32 [1] @ leftpad32 [1] @ [0])"
  by (simp add: Sender_parity_tx_v283) (simp add: tx_v283_def encodeSignature_1_1)

lemma Sender_toy_R1_S1:
  assumes "R tx = Some 1" and "S tx = Some 1" and "Sender_parity tx = 0"
  shows "Sender toy_primitives tx = Inr (replicate 19 0 @ [1])"
proof -
  have e: "encodeSignature (R tx) (S tx) (Sender_parity tx)
      = Inr (leftpad32 [1] @ leftpad32 [1] @ [0])"
    by (simp add: assms encodeSignature_1_1)
  have r: "Ecrecover toy_primitives (Hash toy_primitives tx) (leftpad32 [1] @ leftpad32 [1] @ [0])
      = Some (4 # leftpad32 [1] @ leftpad32 [1])"
    by (simp add: toy_Ecrecover length_leftpad32_single)
  have k: "length (Keccak256 toy_primitives bs) = 32" for bs
    by (simp add: toy_Keccak256)
  have "Sender toy_primitives tx = Inr (AddressOf toy_primitives (4 # leftpad32 [1] @ leftpad32 [1]))"
    by (simp add: Sender_def e r k AddressOf_def)
  then show ?thesis by (simp only: toy_address)
qed

lemma Sender_toy_tx_v283: "Sender toy_primitives tx_v283 = Inr (replicate 19 0 @ [1])"
  by (rule Sender_toy_R1_S1) (simp_all add: Sender_parity_tx_v283, simp_all add: tx_v283_def)

lemma Sender_toy_tx_v27: "Sender toy_primitives tx_v27 = Inr (replicate 19 0 @ [1])"
  by (rule Sender_toy_R1_S1) (simp_all add: Sender_parity_tx_v27, simp_all add: tx_v27_def)

subsection \<open>Signing and recovering\<close>

text \<open>
  Claim C1. For every valid private key \<open>k\<close> and every transaction, signing with
  \<^verbatim>\<open>SignTx\<close> and then applying \<^verbatim>\<open>Sender\<close> to the returned transaction succeeds and
  yields the address derived from the public key of \<open>k\<close>. The key is valid when the
  primitives keep their contract for it on the digest of the transaction
  (\<open>valid_key\<close>); the transaction is the object the pointer \<open>p\<close> refers to.
\<close>

theorem SignTx_Sender_roundtrip:
  assumes "p < length h" and "valid_key P k (Hash P (h ! p))"
  shows "\<exists>h' q. SignTx P h p k = (h', Inr q) \<and>
            Sender P (h' ! q) = Inr (AddressOf P (PublicKey P k))"
proof -
  from assms(2) obtain sig where
    s: "Sign P k (Hash P (h ! p)) = Some sig"
    and l: "length sig = 65"
    and par: "sig ! 64 = 0 \<or> sig ! 64 = 1"
    and r0: "SetBytes (take 32 sig) \<noteq> 0"
    and s0: "SetBytes (take 32 (drop 32 sig)) \<noteq> 0"
    and rec: "Ecrecover P (Hash P (h ! p)) sig = Some (PublicKey P k)"
    and pl: "length (PublicKey P k) = 65"
    and kl: "length (Keccak256 P (drop 1 (PublicKey P k))) = 32"
    by (auto simp: valid_key_def split: option.splits)
  define tx where "tx = (h ! p)\<lparr>R := Some (SetBytes (take 32 sig)),
                          S := Some (SetBytes (take 32 (drop 32 sig))),
                          V := Some (SetBytes (CalculateV (sig ! 64)))\<rparr>"
  have sign: "SignTx P h p k = (h @ [tx], Inr (length h))"
    using SignTx_success [OF assms(1) s] l by (simp add: tx_def)
  have hash: "Hash P tx = Hash P (h ! p)"
    by (simp add: tx_def Hash_R_update Hash_S_update Hash_V_update)
  have parity: "Sender_parity tx = sig ! 64"
    using Sender_parity_27 [where tx = tx and p = "sig ! 64"]
    by (simp add: tx_def SetBytes_CalculateV)
  have lr: "length (take 32 sig) = 32" and ls: "length (take 32 (drop 32 sig)) = 32"
    using l by simp_all
  have v1: "sig ! 64 \<le> 1" using par by auto
  have enc: "encodeSignature (R tx) (S tx) (Sender_parity tx) = Inr sig"
  proof -
    have "encodeSignature (Some (SetBytes (take 32 sig)))
            (Some (SetBytes (take 32 (drop 32 sig)))) (sig ! 64)
          = Inr (leftpad32 (Bytes (SetBytes (take 32 sig)))
                 @ leftpad32 (Bytes (SetBytes (take 32 (drop 32 sig)))) @ [sig ! 64])"
    proof (rule encodeSignature_ok)
      show "Bytes (SetBytes (take 32 sig)) \<noteq> []" using r0 by (simp add: Bytes_eq_Nil)
      show "Bytes (SetBytes (take 32 (drop 32 sig))) \<noteq> []"
        using s0 by (simp add: Bytes_eq_Nil)
      show "length (Bytes (SetBytes (take 32 sig))) \<le> 32"
        using length_Bytes_SetBytes [of "take 32 sig"] lr by simp
      show "length (Bytes (SetBytes (take 32 (drop 32 sig)))) \<le> 32"
        using length_Bytes_SetBytes [of "take 32 (drop 32 sig)"] ls by simp
      show "sig ! 64 \<le> 1" by (rule v1)
    qed
    also have "\<dots> = Inr (take 32 sig @ take 32 (drop 32 sig) @ [sig ! 64])"
      by (simp only: leftpad32_Bytes_SetBytes [OF lr] leftpad32_Bytes_SetBytes [OF ls])
    also have "\<dots> = Inr sig" by (simp only: sig_split [OF l])
    finally show ?thesis by (simp add: parity) (simp add: tx_def)
  qed
  have "Sender P tx = Inr (AddressOf P (PublicKey P k))"
    using pl kl by (simp add: Sender_def enc hash rec AddressOf_def)
  then show ?thesis using sign by simp
qed

theorem SignTx_Sender_roundtrip_witness:
  "0 < length [tx_unsigned] \<and>
   valid_key toy_primitives 5 (Hash toy_primitives ([tx_unsigned] ! 0)) \<and>
   (\<exists>h' q. SignTx toy_primitives [tx_unsigned] 0 5 = (h', Inr q) \<and>
      Sender toy_primitives (h' ! q)
        = Inr (AddressOf toy_primitives (PublicKey toy_primitives 5)))"
proof -
  have a: "0 < length [tx_unsigned]" by simp
  have b: "valid_key toy_primitives 5 (Hash toy_primitives ([tx_unsigned] ! 0))"
    by (rule toy_valid_key_5)
  from SignTx_Sender_roundtrip [OF a b] a b show ?thesis by blast
qed

text \<open>
  Claim C10. Whenever \<^verbatim>\<open>SignTx\<close> succeeds, the V of the returned transaction is 27 plus
  the parity byte (byte 64) of the signature the primitive produced, and the V handling
  of \<^verbatim>\<open>Sender\<close> applied to the returned transaction gives back exactly that byte; in
  particular a parity of 0 or 1 gives V = 27 or V = 28.
\<close>

theorem SignTx_V_parity:
  assumes "SignTx P h p k = (h', Inr q)"
  shows "\<exists>sig. Sign P k (Hash P (h ! p)) = Some sig \<and>
           V (h' ! q) = Some (27 + uint (sig ! 64)) \<and>
           Sender_parity (h' ! q) = sig ! 64 \<and>
           (sig ! 64 = 0 \<or> sig ! 64 = 1 \<longrightarrow> V (h' ! q) = Some 27 \<or> V (h' ! q) = Some 28)"
proof -
  from SignTx_Inr_cases [OF assms] obtain sig where
    s: "Sign P k (Hash P (h ! p)) = Some sig"
    and h': "h' = h @ [(h ! p)\<lparr>R := Some (SetBytes (take 32 sig)),
                                S := Some (SetBytes (take 32 (drop 32 sig))),
                                V := Some (SetBytes (CalculateV (sig ! 64)))\<rparr>]"
    and q: "q = length h"
    by blast
  have v: "V (h' ! q) = Some (27 + uint (sig ! 64))"
    by (simp add: h' q SetBytes_CalculateV)
  have "h' ! q = (h' ! q)\<lparr>V := Some (27 + uint (sig ! 64))\<rparr>"
    using v by simp
  then have d: "Sender_parity (h' ! q) = sig ! 64"
    using Sender_parity_27 [where tx = "h' ! q" and p = "sig ! 64"] by simp
  have "sig ! 64 = 0 \<or> sig ! 64 = 1 \<longrightarrow> V (h' ! q) = Some 27 \<or> V (h' ! q) = Some 28"
    using v by auto
  with s v d show ?thesis by blast
qed

theorem SignTx_V_parity_witness:
  "\<exists>h' q. SignTx toy_primitives [tx_unsigned] 0 5 = (h', Inr q) \<and>
     (\<exists>sig. Sign toy_primitives 5 (Hash toy_primitives ([tx_unsigned] ! 0)) = Some sig \<and>
        sig ! 64 = 0 \<and> V (h' ! q) = Some 27 \<and> Sender_parity (h' ! q) = 0)"
proof -
  have f: "Sign toy_primitives 5 (Hash toy_primitives ([tx_unsigned] ! 0))
      = Some (leftpad32 [5] @ leftpad32 [1] @ [0])"
    by (rule toy_Sign_5)
  have g: "(leftpad32 [5] @ leftpad32 [1] @ [0::byte]) ! 64 = 0" by (rule toy_sig_nth_64)
  have l: "65 \<le> length (leftpad32 [5] @ leftpad32 [1] @ [0::byte])"
    by (simp only: toy_sig_length)
  have p: "0 < length [tx_unsigned]" by simp
  obtain h' q where e: "SignTx toy_primitives [tx_unsigned] 0 5 = (h', Inr q)"
    using SignTx_success [OF p f l] by blast
  from SignTx_V_parity [OF e] f g
  have "\<exists>sig. Sign toy_primitives 5 (Hash toy_primitives ([tx_unsigned] ! 0)) = Some sig \<and>
        sig ! 64 = 0 \<and> V (h' ! q) = Some 27 \<and> Sender_parity (h' ! q) = 0"
    by auto
  with e show ?thesis by blast
qed

text \<open>
  Claim C6. \<^verbatim>\<open>SignTx\<close> never changes the transaction it is given. Whatever the call
  returns, every object of the store before the call is unchanged after it, the input
  among them; on success the result is a new object, with V, R and S set, which agrees
  with the input on every other field.
\<close>

theorem SignTx_preserves_input:
  assumes "SignTx P h p k = (h', res)"
  shows "take (length h) h' = h \<and>
         (p < length h \<longrightarrow> h' ! p = h ! p) \<and>
         (\<forall>q. res = Inr q \<longrightarrow>
            p < length h \<and> q = length h \<and> length h' = Suc (length h) \<and>
            V (h' ! q) \<noteq> None \<and> R (h' ! q) \<noteq> None \<and> S (h' ! q) \<noteq> None \<and>
            (h' ! q)\<lparr>V := V (h ! p), R := R (h ! p), S := S (h ! p)\<rparr> = h ! p)"
proof (cases res)
  case (Inl e)
  with assms have "h' = h \<or> (p < length h \<and> h' = h @ [h ! p])"
    by (simp add: SignTx_Inl_cases)
  then have "take (length h) h' = h \<and> (p < length h \<longrightarrow> h' ! p = h ! p)"
    by (auto simp: nth_append)
  with Inl show ?thesis by simp
next
  case (Inr q')
  with assms have "SignTx P h p k = (h', Inr q')" by simp
  from SignTx_Inr_cases [OF this] obtain sig where
    p: "p < length h"
    and h': "h' = h @ [(h ! p)\<lparr>R := Some (SetBytes (take 32 sig)),
                                S := Some (SetBytes (take 32 (drop 32 sig))),
                                V := Some (SetBytes (CalculateV (sig ! 64)))\<rparr>]"
    and q': "q' = length h"
    by blast
  have a: "take (length h) h' = h" by (simp add: h')
  have b: "h' ! p = h ! p" using p by (simp add: h' nth_append)
  have c: "length h' = Suc (length h)" by (simp add: h')
  have d: "V (h' ! q') \<noteq> None \<and> R (h' ! q') \<noteq> None \<and> S (h' ! q') \<noteq> None"
    by (simp add: h' q')
  have e: "(h' ! q')\<lparr>V := V (h ! p), R := R (h ! p), S := S (h ! p)\<rparr> = h ! p"
    by (simp add: h' q')
  from Inr p q' a b c d e show ?thesis by simp
qed

theorem SignTx_preserves_input_witness:
  "(\<exists>h' q. SignTx toy_primitives [tx_unsigned] 0 5 = (h', Inr q) \<and>
      take 1 h' = [tx_unsigned] \<and> h' ! 0 = tx_unsigned \<and> q = 1 \<and>
      V (h' ! q) \<noteq> None \<and> R (h' ! q) \<noteq> None \<and> S (h' ! q) \<noteq> None) \<and>
   (\<exists>h'. SignTx toy_primitives [tx_unsigned] 0 0 = (h', Inl SigningFailure) \<and>
      take 1 h' = [tx_unsigned] \<and> h' ! 0 = tx_unsigned)"
proof -
  have f: "Sign toy_primitives 5 (Hash toy_primitives ([tx_unsigned] ! 0))
      = Some (leftpad32 [5] @ leftpad32 [1] @ [0])"
    by (rule toy_Sign_5)
  have l: "65 \<le> length (leftpad32 [5] @ leftpad32 [1] @ [0::byte])"
    by (simp only: toy_sig_length)
  have p: "0 < length [tx_unsigned]" by simp
  obtain h' q where e: "SignTx toy_primitives [tx_unsigned] 0 5 = (h', Inr q)"
    using SignTx_success [OF p f l] by blast
  from SignTx_preserves_input [OF e]
  have "take 1 h' = [tx_unsigned] \<and> h' ! 0 = tx_unsigned \<and> q = 1 \<and>
      V (h' ! q) \<noteq> None \<and> R (h' ! q) \<noteq> None \<and> S (h' ! q) \<noteq> None"
    by auto
  with e have one: "\<exists>h' q. SignTx toy_primitives [tx_unsigned] 0 5 = (h', Inr q) \<and>
      take 1 h' = [tx_unsigned] \<and> h' ! 0 = tx_unsigned \<and> q = 1 \<and>
      V (h' ! q) \<noteq> None \<and> R (h' ! q) \<noteq> None \<and> S (h' ! q) \<noteq> None"
    by blast
  have g: "Sign toy_primitives 0 d = None" for d by (simp add: toy_primitives_def)
  obtain h'' where e2: "SignTx toy_primitives [tx_unsigned] 0 0 = (h'', Inl SigningFailure)"
    by (simp add: SignTx_def Copy_def g)
  from SignTx_preserves_input [OF e2]
  have "take 1 h'' = [tx_unsigned] \<and> h'' ! 0 = tx_unsigned" by simp
  with e2 have two: "\<exists>h'. SignTx toy_primitives [tx_unsigned] 0 0 = (h', Inl SigningFailure) \<and>
      take 1 h' = [tx_unsigned] \<and> h' ! 0 = tx_unsigned"
    by blast
  from one two show ?thesis by blast
qed

subsection \<open>The hash\<close>

text \<open>
  Claim C4. Two transactions that agree on nonce, gas price, gas limit, recipient, value
  and payload have the same \<^verbatim>\<open>Hash\<close>, whatever their V, R and S: the hash ignores a
  signature already on its input.
\<close>

theorem Hash_ignores_signature:
  assumes "Nonce a = Nonce b" and "GasPrice a = GasPrice b" and "Gas a = Gas b"
    and "To a = To b" and "Value a = Value b" and "Input a = Input b"
  shows "Hash P a = Hash P b"
  using assms by (simp add: Hash_def calcTxHash_def)

theorem Hash_ignores_signature_witness:
  "Nonce tx_unsigned = Nonce tx_v27 \<and> GasPrice tx_unsigned = GasPrice tx_v27 \<and>
   Gas tx_unsigned = Gas tx_v27 \<and> To tx_unsigned = To tx_v27 \<and>
   Value tx_unsigned = Value tx_v27 \<and> Input tx_unsigned = Input tx_v27 \<and>
   V tx_unsigned \<noteq> V tx_v27 \<and> R tx_unsigned \<noteq> R tx_v27 \<and> S tx_unsigned \<noteq> S tx_v27 \<and>
   Hash toy_primitives tx_unsigned = Hash toy_primitives tx_v27"
proof -
  have f: "Nonce tx_unsigned = Nonce tx_v27" "GasPrice tx_unsigned = GasPrice tx_v27"
    "Gas tx_unsigned = Gas tx_v27" "To tx_unsigned = To tx_v27"
    "Value tx_unsigned = Value tx_v27" "Input tx_unsigned = Input tx_v27"
    by (simp_all add: tx_v27_def)
  have g: "V tx_unsigned \<noteq> V tx_v27" "R tx_unsigned \<noteq> R tx_v27" "S tx_unsigned \<noteq> S tx_v27"
    by (simp_all add: tx_v27_def tx_unsigned_def)
  from Hash_ignores_signature [OF f, of toy_primitives] f g show ?thesis by simp
qed

text \<open>
  Claim C5. \<^verbatim>\<open>Hash\<close> always calls \<^verbatim>\<open>calcTxHash\<close> with the chain identifier 0, so the
  bytes that are hashed are the encoding of the six unsigned fields alone: no chain
  identifier is part of the hash input.
\<close>

theorem Hash_without_chain_id:
  "Hash P tx = calcTxHash P tx 0 \<and>
   Hash P tx = Keccak256 P (Encode P
     [FUint (Nonce tx), FBigInt (GasPrice tx), FUint (Gas tx),
      (case To tx of None \<Rightarrow> FNull | Some a \<Rightarrow> FBytes a),
      FBigInt (Value tx), FBytes (Input tx)])"
  by (simp add: Hash_def calcTxHash_def)

subsection \<open>Encoding and decoding V\<close>

text \<open>
  Claim C8. \<^verbatim>\<open>CalculateV\<close> of a parity byte \<open>p\<close> is the big-endian byte
  representation of the integer 27 + \<open>p\<close>: bytes that read back as 27 + \<open>p\<close> and
  start with a non-zero byte; the single byte 27 for parity 0 and the single byte 28 for
  parity 1.
\<close>

theorem CalculateV_legacy:
  "CalculateV p = Bytes (27 + uint p) \<and> SetBytes (CalculateV p) = 27 + uint p \<and>
   CalculateV p \<noteq> [] \<and> hd (CalculateV p) \<noteq> 0 \<and>
   CalculateV 0 = [27] \<and> CalculateV 1 = [28]"
proof -
  have a: "CalculateV p = Bytes (27 + uint p)"
    by (simp add: CalculateV_def big27_def add.commute)
  have b: "SetBytes (CalculateV p) = 27 + uint p" by (rule SetBytes_CalculateV)
  have "27 + uint p \<noteq> 0" using uint_ge_0 [of p] by linarith
  then have n: "CalculateV p \<noteq> []" by (simp only: a Bytes_eq_Nil not_False_eq_True)
  then have h: "hd (CalculateV p) \<noteq> 0" unfolding a by (rule hd_Bytes_nonzero)
  have c: "CalculateV 0 = [27]"
    by (simp add: CalculateV_def big27_def Bytes_def bytes_of_nat.simps)
  have d: "CalculateV 1 = [28]"
    by (simp add: CalculateV_def big27_def Bytes_def bytes_of_nat.simps)
  from a b n h c d show ?thesis by simp
qed

lemma Sender_encode_error:
  "encodeSignature (R tx) (S tx) (Sender_parity tx) = Inl e \<Longrightarrow> Sender P tx = Inl e"
  by (simp add: Sender_def)

lemma Sender_parity_26: "Sender_parity (tx\<lparr>V := Some 26\<rparr>) = 255"
  by (simp add: Sender_parity_V_update)

lemma Sender_parity_283: "Sender_parity (tx\<lparr>V := Some 283\<rparr>) = 0"
  by (simp add: Sender_parity_V_update)

lemma Sender_parity_27_0: "Sender_parity (tx\<lparr>V := Some 27\<rparr>) = 0"
  by (simp add: Sender_parity_V_update)

lemma Sender_parity_28: "Sender_parity (tx\<lparr>V := Some 28\<rparr>) = 1"
  by (simp add: Sender_parity_V_update)

lemma encodeSignature_bad_parity: "1 < v \<Longrightarrow> encodeSignature r s v = Inl InvalidSignature"
  by (simp add: encodeSignature_def split: option.splits)

lemma Sender_rejects_V26: "Sender P (tx\<lparr>V := Some 26\<rparr>) = Inl InvalidSignature"
  by (rule Sender_encode_error) (simp add: Sender_parity_26 encodeSignature_bad_parity)

text \<open>
  Claim C2. The V handling of \<^verbatim>\<open>Sender\<close> subtracts 27 and is to succeed exactly for
  V = 27 and V = 28, every other V failing with \<open>InvalidSignature\<close>. V = 26 is indeed
  rejected (\<open>Sender_rejects_V26\<close>), but the narrowing \<^verbatim>\<open>byte(refV.Int64())\<close> keeps only
  the low 8 bits of V - 27: for V = 283 = 27 + 256 the byte is 0, so \<^verbatim>\<open>Sender\<close> treats
  the transaction exactly as it treats the same transaction with V = 27, and with
  well-formed R and S it goes on to recover an address instead of failing.
\<close>

theorem Sender_accepts_V283:
  "Sender_parity (tx\<lparr>V := Some 283\<rparr>) = 0 \<and>
   Sender P (tx\<lparr>V := Some 283\<rparr>) = Sender P (tx\<lparr>V := Some 27\<rparr>) \<and>
   encodeSignature (R tx_v283) (S tx_v283) (Sender_parity tx_v283)
     = Inr (leftpad32 [1] @ leftpad32 [1] @ [0]) \<and>
   Sender toy_primitives tx_v283 = Inr (replicate 19 0 @ [1])"
proof -
  have a: "Sender_parity (tx\<lparr>V := Some 283\<rparr>) = 0" by (rule Sender_parity_283)
  have b: "Sender P (tx\<lparr>V := Some 283\<rparr>) = Sender P (tx\<lparr>V := Some 27\<rparr>)"
    unfolding Sender_def Sender_parity_283 Sender_parity_27_0 Hash_V_update
    by simp
  have c: "encodeSignature (R tx_v283) (S tx_v283) (Sender_parity tx_v283)
     = Inr (leftpad32 [1] @ leftpad32 [1] @ [0])"
    by (rule encodeSignature_tx_v283)
  have d: "Sender toy_primitives tx_v283 = Inr (replicate 19 0 @ [1])"
    by (rule Sender_toy_tx_v283)
  from a b c d show ?thesis by blast
qed

lemma Sender_parity_unsigned:
  "V tx = None \<or> V tx = Some 0 \<Longrightarrow> Sender_parity tx = 229"
  by (auto simp: Sender_parity_def SetBytes_Bytes big27_def byte_of_Int64)

text \<open>
  Claim C3. For a transaction whose V is absent (nil) or zero, \<^verbatim>\<open>Sender\<close> returns
  \<open>InvalidSignature\<close>. The error is that of \<^verbatim>\<open>encodeSignature\<close>, so \<^verbatim>\<open>Sender\<close>
  returns before it calls \<^verbatim>\<open>Ecrecover\<close>; the result is the same for every choice of
  the primitives.
\<close>

theorem Sender_rejects_unsigned:
  assumes "V tx = None \<or> V tx = Some 0"
  shows "encodeSignature (R tx) (S tx) (Sender_parity tx) = Inl InvalidSignature \<and>
         Sender P tx = Inl InvalidSignature"
proof -
  have "Sender_parity tx = 229" using assms by (rule Sender_parity_unsigned)
  then have "encodeSignature (R tx) (S tx) (Sender_parity tx) = Inl InvalidSignature"
    by (simp add: encodeSignature_bad_parity)
  then show ?thesis by (simp add: Sender_encode_error)
qed

theorem Sender_rejects_unsigned_witness:
  "(V tx_unsigned = None \<or> V tx_unsigned = Some 0) \<and>
   encodeSignature (R tx_unsigned) (S tx_unsigned) (Sender_parity tx_unsigned)
     = Inl InvalidSignature \<and>
   Sender toy_primitives tx_unsigned = Inl InvalidSignature"
proof -
  have a: "V tx_unsigned = None \<or> V tx_unsigned = Some 0" by (simp add: tx_unsigned_def)
  from Sender_rejects_unsigned [OF a, of toy_primitives] a show ?thesis by simp
qed

subsection \<open>Reassembling the signature and deriving the address\<close>

lemma SetBytes_leftpad32: "SetBytes (leftpad32 (Bytes x)) = \<bar>x\<bar>"
  using SetBytes_Bytes [of x]
  by (simp add: leftpad32_def SetBytes_def nat_of_bytes_replicate_zero)

lemma SetBytes_zero_bytes: "SetBytes (replicate n 0) = 0"
  using nat_of_bytes_replicate_zero [of n "[]"] by (simp add: SetBytes_def nat_of_bytes_Nil)

lemma encodeSignature_malformed:
  assumes "r = None \<or> s = None
      \<or> (\<exists>x. r = Some x \<and> (Bytes x = [] \<or> x = SetBytes (replicate 32 0) \<or> 32 < length (Bytes x)))
      \<or> (\<exists>x. s = Some x \<and> (Bytes x = [] \<or> x = SetBytes (replicate 32 0) \<or> 32 < length (Bytes x)))"
  shows "encodeSignature r s v = Inl InvalidSignature"
proof -
  have z: "Bytes (SetBytes (replicate 32 0)) = []"
    by (simp add: Bytes_eq_Nil SetBytes_zero_bytes)
  show ?thesis using assms z
    by (auto simp: encodeSignature_def split: option.splits)
qed

lemma Sender_after_encode:
  assumes "encodeSignature (R tx) (S tx) (Sender_parity tx) = Inr sig"
  shows "Sender P tx =
           (case Ecrecover P (Hash P tx) sig of
              None \<Rightarrow> Inl RecoveryFailure
            | Some pub \<Rightarrow>
                if length pub < 1 then Inl RuntimePanic
                else if length (Keccak256 P (drop 1 pub)) < 12 then Inl RuntimePanic
                else Inr (BytesToAddress (drop 12 (Keccak256 P (drop 1 pub)))))"
  by (simp add: Sender_def assms)

lemma Sender_after_encode_not_invalid:
  assumes "encodeSignature (R tx) (S tx) (Sender_parity tx) = Inr sig"
  shows "Sender P tx \<noteq> Inl InvalidSignature"
  by (simp add: Sender_after_encode [OF assms] split: option.splits)

text \<open>
  Claim C7. When R or S is absent, serialises to no bytes (the value zero, which is also
  what 32 zero bytes denote) or serialises to more than 32 bytes, \<^verbatim>\<open>Sender\<close> fails with
  \<open>InvalidSignature\<close>. Otherwise the signature \<^verbatim>\<open>Sender\<close> reassembles has 65 bytes, R
  left-padded to 32 bytes, S left-padded to 32 bytes and the parity byte, and it is this
  signature that \<^verbatim>\<open>Sender\<close> hands to \<^verbatim>\<open>Ecrecover\<close>: the result of \<^verbatim>\<open>Sender\<close> is
  what follows from the recovery on it, and it is \<open>InvalidSignature\<close> only when the
  parity byte is neither 0 nor 1.
\<close>

theorem Sender_signature_reassembly:
  "(R tx = None \<or> S tx = None
      \<or> (\<exists>x. R tx = Some x \<and>
            (Bytes x = [] \<or> x = SetBytes (replicate 32 0) \<or> 32 < length (Bytes x)))
      \<or> (\<exists>x. S tx = Some x \<and>
            (Bytes x = [] \<or> x = SetBytes (replicate 32 0) \<or> 32 < length (Bytes x)))
    \<longrightarrow> Sender P tx = Inl InvalidSignature)
   \<and>
   (\<forall>r s. R tx = Some r \<and> S tx = Some s \<and> Bytes r \<noteq> [] \<and> length (Bytes r) \<le> 32
        \<and> Bytes s \<noteq> [] \<and> length (Bytes s) \<le> 32
    \<longrightarrow> (\<exists>sig. sig = leftpad32 (Bytes r) @ leftpad32 (Bytes s) @ [Sender_parity tx] \<and>
           length sig = 65 \<and>
           take 32 sig = leftpad32 (Bytes r) \<and>
           take 32 (drop 32 sig) = leftpad32 (Bytes s) \<and>
           sig ! 64 = Sender_parity tx \<and>
           SetBytes (take 32 sig) = \<bar>r\<bar> \<and> SetBytes (take 32 (drop 32 sig)) = \<bar>s\<bar> \<and>
           Sender P tx =
             (if 1 < Sender_parity tx then Inl InvalidSignature
              else case Ecrecover P (Hash P tx) sig of
                     None \<Rightarrow> Inl RecoveryFailure
                   | Some pub \<Rightarrow>
                       if length pub < 1 then Inl RuntimePanic
                       else if length (Keccak256 P (drop 1 pub)) < 12 then Inl RuntimePanic
                       else Inr (BytesToAddress (drop 12 (Keccak256 P (drop 1 pub))))) \<and>
           (Sender P tx = Inl InvalidSignature) = (1 < Sender_parity tx)))"
proof (intro conjI impI allI)
  assume "R tx = None \<or> S tx = None
      \<or> (\<exists>x. R tx = Some x \<and>
            (Bytes x = [] \<or> x = SetBytes (replicate 32 0) \<or> 32 < length (Bytes x)))
      \<or> (\<exists>x. S tx = Some x \<and>
            (Bytes x = [] \<or> x = SetBytes (replicate 32 0) \<or> 32 < length (Bytes x)))"
  then have "encodeSignature (R tx) (S tx) (Sender_parity tx) = Inl InvalidSignature"
    by (rule encodeSignature_malformed)
  then show "Sender P tx = Inl InvalidSignature" by (rule Sender_encode_error)
next
  fix r s
  assume a: "R tx = Some r \<and> S tx = Some s \<and> Bytes r \<noteq> [] \<and> length (Bytes r) \<le> 32
        \<and> Bytes s \<noteq> [] \<and> length (Bytes s) \<le> 32"
  define v where "v = Sender_parity tx"
  define sig where "sig = leftpad32 (Bytes r) @ leftpad32 (Bytes s) @ [v]"
  have lr: "length (leftpad32 (Bytes r)) = 32" using a by (simp add: length_leftpad32)
  have ls: "length (leftpad32 (Bytes s)) = 32" using a by (simp add: length_leftpad32)
  have l: "length sig = 65" by (simp add: sig_def lr ls)
  have t1: "take 32 sig = leftpad32 (Bytes r)" by (simp add: sig_def lr)
  have t2: "take 32 (drop 32 sig) = leftpad32 (Bytes s)" by (simp add: sig_def lr ls)
  have t3: "sig ! 64 = v" by (simp add: sig_def nth_append lr ls)
  have t4: "SetBytes (take 32 sig) = \<bar>r\<bar>" by (simp only: t1 SetBytes_leftpad32)
  have t5: "SetBytes (take 32 (drop 32 sig)) = \<bar>s\<bar>" by (simp only: t2 SetBytes_leftpad32)
  have snd: "Sender P tx =
             (if 1 < v then Inl InvalidSignature
              else case Ecrecover P (Hash P tx) sig of
                     None \<Rightarrow> Inl RecoveryFailure
                   | Some pub \<Rightarrow>
                       if length pub < 1 then Inl RuntimePanic
                       else if length (Keccak256 P (drop 1 pub)) < 12 then Inl RuntimePanic
                       else Inr (BytesToAddress (drop 12 (Keccak256 P (drop 1 pub)))))"
    and inv: "(Sender P tx = Inl InvalidSignature) = (1 < v)"
  proof -
    show "Sender P tx =
             (if 1 < v then Inl InvalidSignature
              else case Ecrecover P (Hash P tx) sig of
                     None \<Rightarrow> Inl RecoveryFailure
                   | Some pub \<Rightarrow>
                       if length pub < 1 then Inl RuntimePanic
                       else if length (Keccak256 P (drop 1 pub)) < 12 then Inl RuntimePanic
                       else Inr (BytesToAddress (drop 12 (Keccak256 P (drop 1 pub)))))"
    proof (cases "1 < v")
      case True
      then have "encodeSignature (R tx) (S tx) (Sender_parity tx) = Inl InvalidSignature"
        unfolding v_def by (rule encodeSignature_bad_parity)
      then have "Sender P tx = Inl InvalidSignature" by (rule Sender_encode_error)
      with True show ?thesis by simp
    next
      case False
      then have "v \<le> 1" by (simp add: not_less)
      with a have "encodeSignature (Some r) (Some s) v = Inr sig"
        unfolding sig_def by (intro encodeSignature_ok) simp_all
      with a have "encodeSignature (R tx) (S tx) (Sender_parity tx) = Inr sig"
        by (simp add: v_def)
      from Sender_after_encode [OF this, of P] False show ?thesis by simp
    qed
    show "(Sender P tx = Inl InvalidSignature) = (1 < v)"
    proof (cases "1 < v")
      case True
      then have "encodeSignature (R tx) (S tx) (Sender_parity tx) = Inl InvalidSignature"
        unfolding v_def by (rule encodeSignature_bad_parity)
      then have "Sender P tx = Inl InvalidSignature" by (rule Sender_encode_error)
      with True show ?thesis by simp
    next
      case False
      then have "v \<le> 1" by (simp add: not_less)
      with a have "encodeSignature (Some r) (Some s) v = Inr sig"
        unfolding sig_def by (intro encodeSignature_ok) simp_all
      with a have "encodeSignature (R tx) (S tx) (Sender_parity tx) = Inr sig"
        by (simp add: v_def)
      from Sender_after_encode_not_invalid [OF this, of P] False show ?thesis by simp
    qed
  qed
  from l t1 t2 t3 t4 t5 snd inv
  show "\<exists>sig. sig = leftpad32 (Bytes r) @ leftpad32 (Bytes s) @ [Sender_parity tx] \<and>
           length sig = 65 \<and>
           take 32 sig = leftpad32 (Bytes r) \<and>
           take 32 (drop 32 sig) = leftpad32 (Bytes s) \<and>
           sig ! 64 = Sender_parity tx \<and>
           SetBytes (take 32 sig) = \<bar>r\<bar> \<and> SetBytes (take 32 (drop 32 sig)) = \<bar>s\<bar> \<and>
           Sender P tx =
             (if 1 < Sender_parity tx then Inl InvalidSignature
              else case Ecrecover P (Hash P tx) sig of
                     None \<Rightarrow> Inl RecoveryFailure
                   | Some pub \<Rightarrow>
                       if length pub < 1 then Inl RuntimePanic
                       else if length (Keccak256 P (drop 1 pub)) < 12 then Inl RuntimePanic
                       else Inr (BytesToAddress (drop 12 (Keccak256 P (drop 1 pub))))) \<and>
           (Sender P tx = Inl InvalidSignature) = (1 < Sender_parity tx)"
    unfolding v_def [symmetric] sig_def [symmetric] by blast
qed

theorem Sender_signature_reassembly_witness:
  "R tx_unsigned = None \<and> Sender toy_primitives tx_unsigned = Inl InvalidSignature \<and>
   R tx_v27 = Some 1 \<and> S tx_v27 = Some 1 \<and> Bytes 1 = [1] \<and> Sender_parity tx_v27 = 0 \<and>
   length (leftpad32 [1] @ leftpad32 [1] @ [0::byte]) = 65 \<and>
   Sender toy_primitives tx_v27 \<noteq> Inl InvalidSignature \<and>
   Sender toy_primitives tx_v27 =
     (case Ecrecover toy_primitives (Hash toy_primitives tx_v27)
             (leftpad32 [1] @ leftpad32 [1] @ [0]) of
        None \<Rightarrow> Inl RecoveryFailure
      | Some pub \<Rightarrow>
          if length pub < 1 then Inl RuntimePanic
          else if length (Keccak256 toy_primitives (drop 1 pub)) < 12 then Inl RuntimePanic
          else Inr (BytesToAddress (drop 12 (Keccak256 toy_primitives (drop 1 pub)))))"
proof -
  have a: "R tx_unsigned = None" by (simp add: tx_unsigned_def)
  have b: "Sender toy_primitives tx_unsigned = Inl InvalidSignature"
    using Sender_signature_reassembly [of tx_unsigned toy_primitives] a by blast
  have c: "R tx_v27 = Some 1" "S tx_v27 = Some 1" by (simp_all add: tx_v27_def)
  have d: "Bytes 1 = [1]" by (rule Bytes_1)
  have e: "Sender_parity tx_v27 = 0" by (rule Sender_parity_tx_v27)
  have w: "R tx_v27 = Some 1 \<and> S tx_v27 = Some 1 \<and> Bytes 1 \<noteq> [] \<and> length (Bytes 1) \<le> 32
        \<and> Bytes 1 \<noteq> [] \<and> length (Bytes 1) \<le> 32"
    using c d by simp
  from Sender_signature_reassembly [of tx_v27 toy_primitives, THEN conjunct2, rule_format, OF w]
  obtain sig where
    s: "sig = leftpad32 (Bytes 1) @ leftpad32 (Bytes 1) @ [Sender_parity tx_v27]"
    and l: "length sig = 65"
    and r: "Sender toy_primitives tx_v27 =
             (if 1 < Sender_parity tx_v27 then Inl InvalidSignature
              else case Ecrecover toy_primitives (Hash toy_primitives tx_v27) sig of
                     None \<Rightarrow> Inl RecoveryFailure
                   | Some pub \<Rightarrow>
                       if length pub < 1 then Inl RuntimePanic
                       else if length (Keccak256 toy_primitives (drop 1 pub)) < 12
                         then Inl RuntimePanic
                       else Inr (BytesToAddress
                                  (drop 12 (Keccak256 toy_primitives (drop 1 pub)))))"
    and i: "(Sender toy_primitives tx_v27 = Inl InvalidSignature) = (1 < Sender_parity tx_v27)"
    by blast
  have s': "sig = leftpad32 [1] @ leftpad32 [1] @ [0]" using s by (simp only: d e)
  have l': "length (leftpad32 [1] @ leftpad32 [1] @ [0::byte]) = 65" using l by (simp only: s')
  have i': "Sender toy_primitives tx_v27 \<noteq> Inl InvalidSignature" using i by (simp add: e)
  have r': "Sender toy_primitives tx_v27 =
     (case Ecrecover toy_primitives (Hash toy_primitives tx_v27)
             (leftpad32 [1] @ leftpad32 [1] @ [0]) of
        None \<Rightarrow> Inl RecoveryFailure
      | Some pub \<Rightarrow>
          if length pub < 1 then Inl RuntimePanic
          else if length (Keccak256 toy_primitives (drop 1 pub)) < 12 then Inl RuntimePanic
          else Inr (BytesToAddress (drop 12 (Keccak256 toy_primitives (drop 1 pub)))))"
    using r unfolding s' e by simp
  from a b c d e l' i' r' show ?thesis by blast
qed

lemma drop_12_of_32:
  assumes "length d = 32"
  shows "drop 12 d = map (\<lambda>i. d ! i) [12..<32]"
proof -
  have "drop 12 d = drop 12 (map (\<lambda>i. d ! i) [0..<length d])" by (simp only: map_nth)
  also have "\<dots> = map (\<lambda>i. d ! i) (drop 12 [0..<32])" by (simp only: drop_map assms)
  also have "drop 12 [0..<32] = [12..<32]" by (simp only: drop_upt) simp
  finally show ?thesis .
qed

lemma Sender_Inr_cases:
  assumes "Sender P tx = Inr a"
  shows "\<exists>sig pub. encodeSignature (R tx) (S tx) (Sender_parity tx) = Inr sig \<and>
           Ecrecover P (Hash P tx) sig = Some pub \<and>
           pub \<noteq> [] \<and> 12 \<le> length (Keccak256 P (drop 1 pub)) \<and>
           a = BytesToAddress (drop 12 (Keccak256 P (drop 1 pub)))"
  using assms
  by (auto simp: Sender_def not_less split: sum.splits option.splits if_splits)

text \<open>
  Claim C9. Whenever \<^verbatim>\<open>Sender\<close> succeeds, the address it returns is computed from the
  public key that \<^verbatim>\<open>Ecrecover\<close> returned: the digest of the key without its first
  (prefix) byte, from byte 12 on. The digest having 32 bytes, these are the 20 bytes 12
  to 31 of the digest.
\<close>

theorem Sender_address_of_recovered_key:
  assumes "Sender P tx = Inr a"
  shows "\<exists>sig pub. encodeSignature (R tx) (S tx) (Sender_parity tx) = Inr sig \<and>
           Ecrecover P (Hash P tx) sig = Some pub \<and>
           a = BytesToAddress (drop 12 (Keccak256 P (drop 1 pub))) \<and>
           (length (Keccak256 P (drop 1 pub)) = 32 \<longrightarrow>
              a = map (\<lambda>i. Keccak256 P (drop 1 pub) ! i) [12..<32] \<and> length a = 20)"
proof -
  from Sender_Inr_cases [OF assms] obtain sig pub where
    e: "encodeSignature (R tx) (S tx) (Sender_parity tx) = Inr sig"
    and r: "Ecrecover P (Hash P tx) sig = Some pub"
    and a: "a = BytesToAddress (drop 12 (Keccak256 P (drop 1 pub)))"
    by blast
  have "a = map (\<lambda>i. Keccak256 P (drop 1 pub) ! i) [12..<32] \<and> length a = 20"
    if l: "length (Keccak256 P (drop 1 pub)) = 32"
  proof -
    have "length (drop 12 (Keccak256 P (drop 1 pub))) = 20" using l by simp
    then have "a = drop 12 (Keccak256 P (drop 1 pub))"
      using a by (simp only: BytesToAddress_20)
    then show ?thesis using drop_12_of_32 [OF l] l by simp
  qed
  with e r a show ?thesis by blast
qed

theorem Sender_address_of_recovered_key_witness:
  "Sender toy_primitives tx_v27 = Inr (replicate 19 0 @ [1]) \<and>
   (\<exists>sig pub. encodeSignature (R tx_v27) (S tx_v27) (Sender_parity tx_v27) = Inr sig \<and>
      Ecrecover toy_primitives (Hash toy_primitives tx_v27) sig = Some pub \<and>
      length (Keccak256 toy_primitives (drop 1 pub)) = 32 \<and>
      replicate 19 0 @ [1] = map (\<lambda>i. Keccak256 toy_primitives (drop 1 pub) ! i) [12..<32])"
proof -
  have s: "Sender toy_primitives tx_v27 = Inr (replicate 19 0 @ [1])"
    by (rule Sender_toy_tx_v27)
  have k: "length (Keccak256 toy_primitives bs) = 32" for bs
    by (simp add: toy_primitives_def)
  from Sender_address_of_recovered_key [OF s] k s show ?thesis by blast
qed

end
